theory Spec2Isabelle
  imports Complex_Main
begin

section \<open>The vulnerability scan script (docker\_scan.mjs)\<close>

subsection \<open>The scanner's JSON report\<close>

text \<open>
  The script reads the report the scanner wrote: an object with an optional array
  \<open>Results\<close> of result groups, each with an optional array \<open>Vulnerabilities\<close> of
  entries. An absent (or otherwise falsy) property is \<open>None\<close>; an array, empty or
  not, is \<open>Some\<close>. Of an entry the script reads \<open>VulnerabilityID\<close>, \<open>Severity\<close>,
  \<open>Title\<close> and \<open>PkgName\<close>. The report is taken to have this shape, with string
  values for identifier and severity; a report that parses as JSON but breaks the shape
  (an entry that is \<open>null\<close>, say) is not represented.
\<close>

record vuln =
  VulnerabilityID :: string
  Severity :: string
  Title :: "string option"
  PkgName :: "string option"

record result_group =
  Vulnerabilities :: "vuln list option"

record trivy_json =
  Results :: "result_group list option"

text \<open>
  What \<open>fs.pathExists\<close> and \<open>fs.readJson\<close> find at the report's path: no file, a file
  that \<open>readJson\<close> throws on, or a parsed report.
\<close>

datatype json_file = Absent | Unreadable | Parsed trivy_json

subsection \<open>Objects used as dictionaries, and sets\<close>

text \<open>
  \<open>severityMap\<close> is a plain object \<open>{}\<close> used as a dictionary from severity strings
  to counts. Its own properties are kept as an association list in the order they were
  created: writing an existing property keeps its place, writing a new one appends it.
\<close>

type_synonym 'v js_object = "(string \<times> 'v) list"

text \<open>
  The values the script meets when it reads \<open>severityMap[k]\<close>: \<open>undefined\<close>, a number
  (a count), a string, or an object or function inherited from \<open>Object.prototype\<close>, of
  which only its conversion to a string matters here.
\<close>

datatype jsval = Undefined | Number nat | Text string | Object string

text \<open>
  A plain object inherits the properties of \<open>Object.prototype\<close>. The table gives their
  names and what each value becomes when \<open>+\<close> converts it to a string: the methods are
  native functions (as Node prints them), and \<open>__proto__\<close> reads as the prototype
  object itself.
\<close>

definition native_function :: "string \<Rightarrow> string" where
  "native_function name = ''function '' @ name @ ''() { [native code] }''"

definition Object_prototype :: "(string \<times> string) list" where
  "Object_prototype =
     [(''constructor'', native_function ''Object''),
      (''__defineGetter__'', native_function ''__defineGetter__''),
      (''__defineSetter__'', native_function ''__defineSetter__''),
      (''hasOwnProperty'', native_function ''hasOwnProperty''),
      (''__lookupGetter__'', native_function ''__lookupGetter__''),
      (''__lookupSetter__'', native_function ''__lookupSetter__''),
      (''isPrototypeOf'', native_function ''isPrototypeOf''),
      (''propertyIsEnumerable'', native_function ''propertyIsEnumerable''),
      (''toString'', native_function ''toString''),
      (''valueOf'', native_function ''valueOf''),
      (''__proto__'', ''[object Object]''),
      (''toLocaleString'', native_function ''toLocaleString'')]"

definition inherited :: "string \<Rightarrow> bool" where
  "inherited k = (k \<in> set (map fst Object_prototype))"

text \<open>
  \<open>obj[k]\<close>: the own property when there is one, else the inherited one, else
  \<open>undefined\<close>.
\<close>

definition get_prop :: "jsval js_object \<Rightarrow> string \<Rightarrow> jsval" where
  "get_prop obj k =
     (case map_of obj k of
        Some v \<Rightarrow> v
      | None \<Rightarrow> (case map_of Object_prototype k of Some s \<Rightarrow> Object s | None \<Rightarrow> Undefined))"

text \<open>
  \<open>obj[k] = v\<close> for a number or string \<open>v\<close>, the only values the script writes. The
  setter of \<open>__proto__\<close> ignores such a value, so nothing changes; every other name
  becomes or stays an own property (the inherited methods are writable, so an own
  property shadows them).
\<close>

fun own_update :: "'v js_object \<Rightarrow> string \<Rightarrow> 'v \<Rightarrow> 'v js_object" where
  "own_update [] k v = [(k, v)]"
| "own_update ((k', v') # ps) k v =
     (if k' = k then (k', v) # ps else (k', v') # own_update ps k v)"

definition set_prop :: "jsval js_object \<Rightarrow> string \<Rightarrow> jsval \<Rightarrow> jsval js_object" where
  "set_prop obj k v = (if k = ''__proto__'' then obj else own_update obj k v)"

text \<open>
  \<open>(x || 0) + 1\<close>. \<open>undefined\<close>, 0 and the empty string are falsy and give \<open>0 + 1\<close>. A
  number is incremented. On a non-empty string, and on an object or function, which \<open>+\<close>
  first converts to a string, \<open>+ 1\<close> appends the character \<open>1\<close>.
\<close>

fun or_zero_plus_one :: "jsval \<Rightarrow> jsval" where
  "or_zero_plus_one Undefined = Number 1"
| "or_zero_plus_one (Number n) = Number (n + 1)"
| "or_zero_plus_one (Text s) = (if s = [] then Number 1 else Text (s @ ''1''))"
| "or_zero_plus_one (Object s) = Text (s @ ''1'')"

text \<open>
  \<open>Object.entries\<close> lists the properties whose names are array indices (canonical
  decimal numerals below \<open>2^32 - 1\<close>) first, in ascending numeric order, and then
  the other string-named properties in creation order.
\<close>

definition is_digit :: "char \<Rightarrow> bool" where
  "is_digit c = (c \<in> set ''0123456789'')"

definition digit_value :: "char \<Rightarrow> nat" where
  "digit_value c = of_char c - 48"

definition decimal_value :: "string \<Rightarrow> nat" where
  "decimal_value s = foldl (\<lambda>n c. 10 * n + digit_value c) 0 s"

definition is_array_index :: "string \<Rightarrow> bool" where
  "is_array_index s =
     (s \<noteq> [] \<and> list_all is_digit s \<and> (s = ''0'' \<or> hd s \<noteq> CHR ''0'') \<and>
      decimal_value s < 2 ^ 32 - 1)"

definition Object_entries :: "'v js_object \<Rightarrow> (string \<times> 'v) list" where
  "Object_entries obj =
     sort_key (\<lambda>(k, v). decimal_value k) (filter (\<lambda>(k, v). is_array_index k) obj) @
     filter (\<lambda>(k, v). \<not> is_array_index k) obj"

text \<open>A \<open>Set\<close> of strings, in insertion order; \<open>size\<close> is the length.\<close>

definition set_add :: "string list \<Rightarrow> string \<Rightarrow> string list" where
  "set_add s x = (if x \<in> set s then s else s @ [x])"

subsection \<open>Counting the report's entries\<close>

text \<open>
  The two nested \<open>for ... of\<close> loops of the script. The state is \<open>severityMap\<close>,
  the counter \<open>totalVulns\<close> and \<open>cveSet\<close>.
\<close>

type_synonym tally = "jsval js_object \<times> nat \<times> string list"

fun tally_vulns :: "vuln list \<Rightarrow> tally \<Rightarrow> tally" where
  "tally_vulns [] st = st"
| "tally_vulns (v # vs) (severityMap, totalVulns', cveSet) =
     tally_vulns vs
       (set_prop severityMap (Severity v) (or_zero_plus_one (get_prop severityMap (Severity v))),
        totalVulns' + 1,
        set_add cveSet (VulnerabilityID v))"

fun tally_results :: "result_group list \<Rightarrow> tally \<Rightarrow> tally" where
  "tally_results [] st = st"
| "tally_results (r # rs) st =
     tally_results rs
       (case Vulnerabilities r of None \<Rightarrow> st | Some vs \<Rightarrow> tally_vulns vs st)"

text \<open>The script's variables that the summary is written from.\<close>

record scan_state =
  scanSuccess :: bool
  vulnCounts :: "jsval js_object"
  totalVulns :: nat
  uniqueCves :: nat

definition initial_state :: scan_state where
  "initial_state = \<lparr>scanSuccess = True, vulnCounts = [], totalVulns = 0, uniqueCves = 0\<rparr>"

text \<open>
  Parsing the counts. Without a file nothing happens; when reading throws, the \<open>catch\<close>
  prints a warning and the variables keep their values; otherwise the loops run and
  \<open>vulnCounts\<close> and \<open>uniqueCves\<close> are assigned. The second component is what is printed.
\<close>

definition parse_counts :: "json_file \<Rightarrow> scan_state \<Rightarrow> scan_state \<times> string list" where
  "parse_counts file st =
     (case file of
        Absent \<Rightarrow> (st, [])
      | Unreadable \<Rightarrow> (st, [''WARN: Could not parse JSON report''])
      | Parsed jsonData \<Rightarrow>
          (case (case Results jsonData of
                   None \<Rightarrow> ([], totalVulns st, [])
                 | Some rs \<Rightarrow> tally_results rs ([], totalVulns st, []))
           of (severityMap, totalVulns', cveSet) \<Rightarrow>
             (st\<lparr>vulnCounts := severityMap, totalVulns := totalVulns',
                 uniqueCves := length cveSet\<rparr>, [])))"

text \<open>
  The variables after the parsing of the counts (lines 108 to 131). Before it only
  \<open>scanSuccess\<close> can have changed: \<open>ok\<close> is its value when the parsing starts, the
  other variables are as initialised.
\<close>

definition scan :: "bool \<Rightarrow> json_file \<Rightarrow> scan_state" where
  "scan ok file = fst (parse_counts file (initial_state\<lparr>scanSuccess := ok\<rparr>))"

text \<open>The entries of a report in the order the loops visit them.\<close>

definition records_of :: "trivy_json \<Rightarrow> vuln list" where
  "records_of jsonData =
     (case Results jsonData of
        None \<Rightarrow> []
      | Some rs \<Rightarrow> concat (map (\<lambda>r. case Vulnerabilities r of None \<Rightarrow> [] | Some vs \<Rightarrow> vs) rs))"


text \<open>A report with one result group holding the given entries.\<close>

definition report_of :: "vuln list \<Rightarrow> json_file" where
  "report_of vs = Parsed \<lparr>Results = Some [\<lparr>Vulnerabilities = Some vs\<rparr>]\<rparr>"

subsection \<open>The summary report\<close>

text \<open>Decimal rendering of a count in a template literal.\<close>

definition digit_char :: "nat \<Rightarrow> char" where
  "digit_char d = ''0123456789'' ! d"

fun string_of_nat :: "nat \<Rightarrow> string" where
  "string_of_nat n =
     (if n < 10 then [digit_char n] else string_of_nat (n div 10) @ [digit_char (n mod 10)])"

declare string_of_nat.simps [simp del]

text \<open>A value in a template literal.\<close>

fun to_text :: "jsval \<Rightarrow> string" where
  "to_text Undefined = ''undefined''"
| "to_text (Number n) = string_of_nat n"
| "to_text (Text s) = s"
| "to_text (Object s) = s"

text \<open>\<open>Array.prototype.join\<close> and \<open>Array.prototype.indexOf\<close>.\<close>

fun join :: "string \<Rightarrow> string list \<Rightarrow> string" where
  "join sep [] = []"
| "join sep [x] = x"
| "join sep (x # y # ys) = x @ sep @ join sep (y # ys)"

fun indexOf :: "'a list \<Rightarrow> 'a \<Rightarrow> int" where
  "indexOf [] x = - 1"
| "indexOf (y # ys) x =
     (if y = x then 0 else (if indexOf ys x < 0 then - 1 else indexOf ys x + 1))"

definition order :: "string list" where
  "order = [''CRITICAL'', ''HIGH'', ''MEDIUM'', ''LOW'', ''UNKNOWN'']"

text \<open>
  The comparator of the script is \<open>order.indexOf(a) - order.indexOf(b)\<close>, the
  difference of two ranks, and \<open>Array.prototype.sort\<close> is stable: the result is the stable
  sort of the entries by the rank of their key, which is what \<open>sort_key\<close> computes.
\<close>

definition sort_entries :: "(string \<times> jsval) list \<Rightarrow> (string \<times> jsval) list" where
  "sort_entries es = sort_key (\<lambda>(a, c). indexOf order a) es"

definition entry_line :: "string \<times> jsval \<Rightarrow> string" where
  "entry_line e = (case e of (severity, count) \<Rightarrow> severity @ '': '' @ to_text count)"

definition newline :: string where
  "newline = [CHR 0x0A]"

definition breakdown :: "jsval js_object \<Rightarrow> string" where
  "breakdown vc =
     (if length (Object_entries vc) > 0
      then join newline (map entry_line (sort_entries (Object_entries vc)))
      else ''No vulnerabilities found'')"

text \<open>
  What else the template reads: the date, the image name, the two sizes (\<open>None\<close> for a
  falsy value, shown as \<open>N/A\<close>) and the names of the report files.
\<close>

record report_env =
  date :: string
  fullImageName :: string
  compressedSize :: "string option"
  uncompressedSize :: "string option"
  trivyReportFile :: string
  trivyJsonFile :: string
  summaryFile :: string

definition or_na :: "string option \<Rightarrow> string" where
  "or_na x = (case x of None \<Rightarrow> ''N/A'' | Some s \<Rightarrow> s)"

definition summary_head :: "report_env \<Rightarrow> scan_state \<Rightarrow> string list" where
  "summary_head env st =
     [''Docker Image Security Scan Summary'',
      ''=================================='',
      ''Date: '' @ date env,
      ''Image: '' @ fullImageName env,
      [],
      ''Image Information:'',
      ''------------------'',
      ''Compressed Size:   '' @ or_na (compressedSize env) @ '' MB'',
      ''Uncompressed Size: '' @ or_na (uncompressedSize env) @ '' MB'',
      [],
      ''Vulnerability Summary:'',
      ''----------------------'',
      ''Total Vulnerabilities: '' @ string_of_nat (totalVulns st),
      ''Unique CVEs: '' @ string_of_nat (uniqueCves st),
      [],
      ''Breakdown by Severity:'']"

definition summary_tail :: "report_env \<Rightarrow> string list" where
  "summary_tail env =
     [[],
      ''Report Files:'',
      ''-------------'',
      ''Text Report: '' @ trivyReportFile env,
      ''JSON Report: '' @ trivyJsonFile env,
      ''This Summary: '' @ summaryFile env]"

definition summaryContent :: "report_env \<Rightarrow> scan_state \<Rightarrow> string" where
  "summaryContent env st =
     concat (map (\<lambda>l. l @ newline)
       (summary_head env st @ [breakdown (vulnCounts st)] @ summary_tail env))"

subsection \<open>The top critical and high findings\<close>

text \<open>\<open>vuln.Title || 'No title'\<close>: an absent or empty title is replaced.\<close>

definition or_no_title :: "string option \<Rightarrow> string" where
  "or_no_title t =
     (case t of None \<Rightarrow> ''No title'' | Some s \<Rightarrow> if s = [] then ''No title'' else s)"

record finding =
  severity :: string
  id' :: string
  title :: string
  pkgName :: "string option"

definition to_finding :: "vuln \<Rightarrow> finding" where
  "to_finding v =
     \<lparr>severity = Severity v, id' = VulnerabilityID v, title = or_no_title (Title v),
      pkgName = PkgName v\<rparr>"

text \<open>The second pair of nested loops, pushing onto \<open>criticalHighVulns\<close>.\<close>

fun collect_vulns :: "vuln list \<Rightarrow> finding list \<Rightarrow> finding list" where
  "collect_vulns [] acc = acc"
| "collect_vulns (v # vs) acc =
     collect_vulns vs
       (if Severity v = ''CRITICAL'' \<or> Severity v = ''HIGH'' then acc @ [to_finding v] else acc)"

fun collect_results :: "result_group list \<Rightarrow> finding list \<Rightarrow> finding list" where
  "collect_results [] acc = acc"
| "collect_results (r # rs) acc =
     collect_results rs
       (case Vulnerabilities r of None \<Rightarrow> acc | Some vs \<Rightarrow> collect_vulns vs acc)"

definition criticalHighVulns :: "json_file \<Rightarrow> finding list" where
  "criticalHighVulns file =
     (case file of
        Parsed jsonData \<Rightarrow>
          (case Results jsonData of None \<Rightarrow> [] | Some rs \<Rightarrow> collect_results rs [])
      | _ \<Rightarrow> [])"

text \<open>
  The findings the script prints: the block runs when \<open>totalVulns > 0\<close> and the report
  file exists, and prints \<open>criticalHighVulns.slice(0, 5)\<close>.
\<close>

definition top_findings :: "scan_state \<Rightarrow> json_file \<Rightarrow> finding list" where
  "top_findings st file =
     (if totalVulns st > 0 \<and> file \<noteq> Absent then take 5 (criticalHighVulns file) else [])"

subsection \<open>The script from the spinner on\<close>

text \<open>
  Before the scanner is invoked the script evaluates
  \<^verbatim>\<open>spinner(chalk.cyan('Running vulnerability scan...')).start()\<close>. The function
  \<open>spinner(title, callback)\<close> of the zx library is asynchronous (the build script calls
  it with a callback and awaits it): the call returns a promise. A promise has the
  methods \<open>then\<close>, \<open>catch\<close> and \<open>finally\<close> and the inherited methods of
  \<open>Object.prototype\<close>; any other property reads as \<open>undefined\<close>, and calling it throws
  a \<open>TypeError\<close>. The statement is outside every \<open>try\<close>, so the error ends the script.
\<close>

datatype js_error = TypeError string

definition promise_has_method :: "string \<Rightarrow> bool" where
  "promise_has_method name =
     (name \<in> set [''then'', ''catch'', ''finally''] \<or>
      (inherited name \<and> name \<noteq> ''__proto__''))"

definition call_on_promise :: "string \<Rightarrow> string \<Rightarrow> js_error + unit" where
  "call_on_promise expr name =
     (if promise_has_method name then Inr ()
      else Inl (TypeError (expr @ ''.'' @ name @ '' is not a function'')))"

text \<open>
  The script from that statement to the writing of the summary: the result is the error
  it ends with, or the text it writes to the summary file. In the second branch \<open>ok\<close>
  stands for what the \<open>try\<close> block around the scanner leaves in \<open>scanSuccess\<close>.
\<close>

definition docker_scan :: "bool \<Rightarrow> json_file \<Rightarrow> report_env \<Rightarrow> js_error + string" where
  "docker_scan ok file env =
     (case call_on_promise ''spinner(...)'' ''start'' of
        Inl e \<Rightarrow> Inl e
      | Inr scanSpinner \<Rightarrow> Inr (summaryContent env (scan ok file)))"

section \<open>The build script (local\_build.mjs)\<close>

subsection \<open>Numbers\<close>

text \<open>
  A JavaScript number is modelled as \<open>NaN\<close> or a finite value, kept as an exact rational.
  The value of a decimal literal is taken exactly: the rounding of \<open>parseFloat\<close> to
  the nearest double, and its overflow to infinity on literals beyond the range of doubles,
  are not modelled. Multiplying by a power of 1024 is exact in binary floating point, so
  within that range the rounding would commute with the multiplications below. Sums and
  quotients are exact in the model; on whole numbers of bytes below \<open>2\<^sup>5\<^sup>3\<close> the
  sums of the script are exact in JavaScript as well.
\<close>

datatype number = NaN | Num rat

fun num_times :: "number \<Rightarrow> rat \<Rightarrow> number" where
  "num_times NaN c = NaN"
| "num_times (Num x) c = Num (x * c)"

fun num_plus :: "number \<Rightarrow> number \<Rightarrow> number" where
  "num_plus (Num x) (Num y) = Num (x + y)"
| "num_plus _ _ = NaN"

fun num_div :: "number \<Rightarrow> rat \<Rightarrow> number" where
  "num_div NaN c = NaN"
| "num_div (Num x) c = Num (x / c)"

text \<open>\<open>x > 0\<close>: every comparison with \<open>NaN\<close> is false.\<close>

fun num_gt0 :: "number \<Rightarrow> bool" where
  "num_gt0 NaN = False"
| "num_gt0 (Num x) = (0 < x)"

subsection \<open>Matching the size pattern\<close>

text \<open>
  The pattern is \<^verbatim>\<open>/^([\d.]+)\s*(GB|MB|M|KB|K|B)$/i\<close>. Strings are lists of 8-bit
  characters, each standing for the code unit of the same number (code units above 255
  are not represented); \<^verbatim>\<open>\s\<close> is then tab, line feed, vertical tab, form feed,
  carriage return, space and the no-break space. With the flag \<open>i\<close> a letter of a unit
  matches itself in either case and nothing else.
\<close>

definition is_num_char :: "char \<Rightarrow> bool" where
  "is_num_char c = (is_digit c \<or> c = CHR ''.'')"

definition is_space :: "char \<Rightarrow> bool" where
  "is_space c = (c \<in> set [CHR 0x09, CHR 0x0A, CHR 0x0B, CHR 0x0C, CHR 0x0D, CHR 0x20, CHR 0xA0])"

text \<open>
  Upper case of a character. Only the letters a to z are mapped: the pattern's units are
  made of them, and \<open>toUpperCase\<close> is applied to a matched unit only.
\<close>

definition upper_char :: "char \<Rightarrow> char" where
  "upper_char c =
     (case map_of (zip ''abcdefghijklmnopqrstuvwxyz'' ''ABCDEFGHIJKLMNOPQRSTUVWXYZ'') c of
        None \<Rightarrow> c
      | Some u \<Rightarrow> u)"

definition toUpperCase :: "string \<Rightarrow> string" where
  "toUpperCase s = map upper_char s"

definition units :: "string list" where
  "units = [''GB'', ''MB'', ''M'', ''KB'', ''K'', ''B'']"

text \<open>
  The strings the pattern matches: a non-empty run of digits and dots, any white space,
  and one of the units in either case, with nothing before or after.
\<close>

definition matches_size_pattern :: "string \<Rightarrow> bool" where
  "matches_size_pattern s =
     (\<exists>num ws u. s = num @ ws @ u \<and> num \<noteq> [] \<and> list_all is_num_char num \<and>
        list_all is_space ws \<and> toUpperCase u \<in> set units)"

text \<open>
  \<open>sizeString.match(...)\<close>: \<open>None\<close> for \<open>null\<close>, else the two groups. The three parts
  of the pattern use disjoint sets of characters, so the greedy split is the only one.
\<close>

definition size_match :: "string \<Rightarrow> (string \<times> string) option" where
  "size_match sizeString =
     (let num = takeWhile is_num_char sizeString;
          u = dropWhile is_space (dropWhile is_num_char sizeString)
      in if num \<noteq> [] \<and> toUpperCase u \<in> set units then Some (num, u) else None)"

subsection \<open>Parsing a size\<close>

text \<open>
  \<open>parseFloat\<close> on a string of digits and dots reads the longest prefix that is a
  decimal literal: digits, then optionally a dot and digits; or a dot and at least one
  digit. When there is no such prefix the result is \<open>NaN\<close>.
\<close>

definition parseFloat :: "string \<Rightarrow> number" where
  "parseFloat s =
     (let ip = takeWhile is_digit s;
          fp = (case dropWhile is_digit s of
                  [] \<Rightarrow> []
                | c # cs \<Rightarrow> if c = CHR ''.'' then takeWhile is_digit cs else [])
      in if ip = [] \<and> fp = [] then NaN
         else Num (of_nat (decimal_value ip) + of_nat (decimal_value fp) / 10 ^ length fp))"

text \<open>The result of \<open>parseSizeToBytes\<close> is the number returned and the lines echoed.\<close>

definition parse_warning :: "string \<Rightarrow> string" where
  "parse_warning sizeString =
     ''WARN: Could not parse size string '' @ [CHR 0x27] @ sizeString @ [CHR 0x27] @
     ''. Returning 0 bytes.''"

definition parseSizeToBytes :: "string \<Rightarrow> number \<times> string list" where
  "parseSizeToBytes sizeString =
     (case size_match sizeString of
        None \<Rightarrow> (Num 0, [parse_warning sizeString])
      | Some (m1, m2) \<Rightarrow>
          (let value = parseFloat m1; unit = toUpperCase m2
           in if unit = ''GB''
              then (num_times (num_times (num_times value 1024) 1024) 1024, [])
              else if unit = ''MB'' \<or> unit = ''M''
              then (num_times (num_times value 1024) 1024, [])
              else if unit = ''KB'' \<or> unit = ''K'' then (num_times value 1024, [])
              else if unit = ''B'' then (value, [])
              else (Num 0, [])))"

subsection \<open>The estimated total image size\<close>

definition bufferBytes :: rat where
  "bufferBytes = 300 * 1024 * 1024"

text \<open>
  The variable \<open>estimatedTotalImageSizeMB\<close> holds the text \<open>N/A\<close> or the result of
  \<open>toFixed(2)\<close> on a number of MiB: \<open>Fixed2 x\<close> stands for \<open>x.toFixed(2)\<close>.
\<close>

datatype size_text = NA | Fixed2 number

text \<open>The sum in the script's assignment, before it is divided and formatted.\<close>

definition estimatedTotalBytes :: "number \<Rightarrow> number \<Rightarrow> number" where
  "estimatedTotalBytes compiledAppOutputBytes virtualSizeBytes =
     num_plus (num_plus compiledAppOutputBytes virtualSizeBytes) (Num bufferBytes)"

definition estimatedTotalImageSizeMB :: "number \<Rightarrow> number \<Rightarrow> size_text" where
  "estimatedTotalImageSizeMB compiledAppOutputBytes virtualSizeBytes =
     (if num_gt0 compiledAppOutputBytes \<or> num_gt0 virtualSizeBytes
      then Fixed2 (num_div (estimatedTotalBytes compiledAppOutputBytes virtualSizeBytes)
                     (1024 * 1024))
      else NA)"

section \<open>Reference definitions and sample inputs\<close>

text \<open>
  The specification's wording of the top findings, for comparison with the script: the
  critical and high records in encounter order, stably sorted so that critical ones come
  first, cut to five.
\<close>

definition spec_rank :: "vuln \<Rightarrow> nat" where
  "spec_rank v = (if Severity v = ''CRITICAL'' then 0 else 1)"

definition spec_topFindings :: "vuln list \<Rightarrow> finding list" where
  "spec_topFindings vs =
     map to_finding
       (take 5 (sort_key spec_rank
          (filter (\<lambda>v. Severity v = ''CRITICAL'' \<or> Severity v = ''HIGH'') vs)))"

text \<open>
  The specification's wording of the severity breakdown for a non-empty result: all five
  severities in the fixed order, each with its count, zero or not.
\<close>

definition spec_breakdown :: "vuln list \<Rightarrow> string" where
  "spec_breakdown vs =
     join newline
       (map (\<lambda>s. entry_line (s, Number (length (filter (\<lambda>v. Severity v = s) vs)))) order)"

text \<open>
  Sample entries: the identifier CVE-1 with severity HIGH in two different packages, CVE-2
  with severity CRITICAL, and an entry with a severity the scanner does not define.
\<close>

definition cve1_openssl :: vuln where
  "cve1_openssl =
     \<lparr>VulnerabilityID = ''CVE-1'', Severity = ''HIGH'', Title = Some ''overflow'',
      PkgName = Some ''openssl''\<rparr>"

definition cve1_libssl :: vuln where
  "cve1_libssl =
     \<lparr>VulnerabilityID = ''CVE-1'', Severity = ''HIGH'', Title = Some ''overflow'',
      PkgName = Some ''libssl''\<rparr>"

definition cve2_zlib :: vuln where
  "cve2_zlib =
     \<lparr>VulnerabilityID = ''CVE-2'', Severity = ''CRITICAL'', Title = None,
      PkgName = Some ''zlib''\<rparr>"

definition cve3_negligible :: vuln where
  "cve3_negligible =
     \<lparr>VulnerabilityID = ''CVE-3'', Severity = ''NEGLIGIBLE'', Title = None,
      PkgName = None\<rparr>"

text \<open>
  Entries whose severity string is the name of a property that every plain object
  inherits.
\<close>

definition cve4_proto :: vuln where
  "cve4_proto =
     \<lparr>VulnerabilityID = ''CVE-4'', Severity = ''__proto__'', Title = None, PkgName = None\<rparr>"

definition cve5_constructor :: vuln where
  "cve5_constructor =
     \<lparr>VulnerabilityID = ''CVE-5'', Severity = ''constructor'', Title = None,
      PkgName = None\<rparr>"

text \<open>A report with the three sample entries in two result groups.\<close>

definition sample_report :: trivy_json where
  "sample_report =
     \<lparr>Results = Some [\<lparr>Vulnerabilities = Some [cve1_openssl]\<rparr>,
                      \<lparr>Vulnerabilities = None\<rparr>,
                      \<lparr>Vulnerabilities = Some [cve1_libssl, cve2_zlib]\<rparr>]\<rparr>"

definition sample_env :: report_env where
  "sample_env =
     \<lparr>date = ''Tue Nov 03 2026'', fullImageName = ''n8n-local:dev'',
      compressedSize = None, uncompressedSize = Some ''512.00'',
      trivyReportFile = ''trivy_report.txt'', trivyJsonFile = ''trivy_report.json'',
      summaryFile = ''scan_summary.txt''\<rparr>"

text \<open>A report without entries: one result group with an empty array, one without.\<close>

definition empty_report :: trivy_json where
  "empty_report =
     \<lparr>Results = Some [\<lparr>Vulnerabilities = Some []\<rparr>, \<lparr>Vulnerabilities = None\<rparr>]\<rparr>"

text \<open>The input of the specification's example: the same HIGH record twice, then CVE-2.\<close>

definition spec_example :: "vuln list" where
  "spec_example = [cve1_openssl, cve1_openssl, cve2_zlib]"

text \<open>
  The specification's table of unit multipliers: B is 1, K and KB are 1024, M and MB are
  \<open>1024\<^sup>2\<close>, GB is \<open>1024\<^sup>3\<close>.
\<close>

definition spec_multiplier :: "string \<Rightarrow> rat" where
  "spec_multiplier u =
     (if u = ''B'' then 1
      else if u = ''K'' \<or> u = ''KB'' then 1024
      else if u = ''M'' \<or> u = ''MB'' then 1024 ^ 2
      else if u = ''GB'' then 1024 ^ 3
      else 0)"


section \<open>Properties of the scan script\<close>

subsection \<open>The dictionary operations\<close>

lemma inherited_proto: "inherited ''__proto__''"
  by (simp add: inherited_def Object_prototype_def)

lemma get_prop_own:
  "\<not> inherited k \<Longrightarrow> get_prop m k = (case map_of m k of Some v \<Rightarrow> v | None \<Rightarrow> Undefined)"
proof -
  assume "\<not> inherited k"
  then have "map_of Object_prototype k = None"
    by (simp add: inherited_def map_of_eq_None_iff)
  then show ?thesis
    by (simp add: get_prop_def split: option.splits)
qed

lemma map_of_own_update:
  "map_of (own_update m k v) k' = (if k' = k then Some v else map_of m k')"
  by (induction m) auto

lemma keys_own_update:
  "map fst (own_update m k v) = (if k \<in> fst ` set m then map fst m else map fst m @ [k])"
  by (induction m) force+

lemma get_prop_set_prop:
  "get_prop (set_prop m k v) k' =
     (if k' = k \<and> k \<noteq> ''__proto__'' then v else get_prop m k')"
  by (simp add: get_prop_def set_prop_def map_of_own_update)

lemma keys_set_prop:
  "map fst (set_prop m k v) =
     (if k = ''__proto__'' \<or> k \<in> fst ` set m then map fst m else map fst m @ [k])"
  by (simp add: set_prop_def keys_own_update)

lemma keyset_set_prop:
  "fst ` set (set_prop m k v) =
     (if k = ''__proto__'' then fst ` set m else insert k (fst ` set m))"
proof -
  have "fst ` set (set_prop m k v) = set (map fst (set_prop m k v))"
    by simp
  also have "\<dots> = (if k = ''__proto__'' then fst ` set m else insert k (fst ` set m))"
    unfolding keys_set_prop by auto
  finally show ?thesis .
qed



subsection \<open>The counting loops\<close>

lemma tally_vulns_append:
  "tally_vulns (xs @ ys) st = tally_vulns ys (tally_vulns xs st)"
  by (induction xs st rule: tally_vulns.induct) auto

lemma tally_results_flat:
  "tally_results rs st =
     tally_vulns (concat (map (\<lambda>r. case Vulnerabilities r of None \<Rightarrow> [] | Some vs \<Rightarrow> vs) rs)) st"
  by (induction rs arbitrary: st) (auto simp: tally_vulns_append split: option.splits)

lemma tally_total:
  "fst (snd (tally_vulns vs st)) = fst (snd st) + length vs"
  by (induction vs st rule: tally_vulns.induct) auto

lemma tally_keys:
  "fst ` set (fst (tally_vulns vs st)) =
     fst ` set (fst st) \<union> (Severity ` set vs - {''__proto__''})"
  by (induction vs st rule: tally_vulns.induct) (auto simp: keyset_set_prop)

lemma tally_distinct_keys:
  "distinct (map fst (fst st)) \<Longrightarrow> distinct (map fst (fst (tally_vulns vs st)))"
  by (induction vs st rule: tally_vulns.induct) (auto simp: keys_set_prop)


lemma tally_lookup:
  assumes "\<not> inherited s"
    and "get_prop (fst st) s = Number c \<or> (get_prop (fst st) s = Undefined \<and> c = 0)"
  shows "get_prop (fst (tally_vulns vs st)) s =
     (if s \<in> Severity ` set vs
      then Number (c + length (filter (\<lambda>v. Severity v = s) vs))
      else get_prop (fst st) s)"
  using assms(2)
proof (induction vs st arbitrary: c rule: tally_vulns.induct)
  case (1 st)
  then show ?case by simp
next
  case (2 v vs severityMap totalVulns' cveSet)
  have s: "s \<noteq> ''__proto__''"
    using assms(1) inherited_proto by auto
  let ?m = "set_prop severityMap (Severity v) (or_zero_plus_one (get_prop severityMap (Severity v)))"
  let ?st = "(?m, totalVulns' + 1, set_add cveSet (VulnerabilityID v))"
  show ?case
  proof (cases "Severity v = s")
    case True
    have "get_prop ?m s = Number (c + 1)"
      using 2(2) True s by (auto simp: get_prop_set_prop)
    then have "get_prop (fst (tally_vulns vs ?st)) s =
       (if s \<in> Severity ` set vs
        then Number (c + 1 + length (filter (\<lambda>v. Severity v = s) vs))
        else get_prop (fst ?st) s)"
      using "2.IH" [of "c + 1"] by simp
    then show ?thesis
      using True \<open>get_prop ?m s = Number (c + 1)\<close>
      by (auto simp: filter_empty_conv image_iff)
  next
    case False
    then have "get_prop ?m s = get_prop severityMap s"
      by (auto simp: get_prop_set_prop)
    then have "get_prop (fst (tally_vulns vs ?st)) s =
       (if s \<in> Severity ` set vs
        then Number (c + length (filter (\<lambda>v. Severity v = s) vs))
        else get_prop (fst ?st) s)"
      using "2.IH" [of c] 2(2) by simp
    then show ?thesis
      using False \<open>get_prop ?m s = get_prop severityMap s\<close> by auto
  qed
qed

lemma tally_ids:
  "set (snd (snd (tally_vulns vs st))) = set (snd (snd st)) \<union> VulnerabilityID ` set vs"
  by (induction vs st rule: tally_vulns.induct) (auto simp: set_add_def)

lemma tally_distinct_ids:
  "distinct (snd (snd st)) \<Longrightarrow> distinct (snd (snd (tally_vulns vs st)))"
  by (induction vs st rule: tally_vulns.induct) (auto simp: set_add_def)

lemma tally_unique:
  "length (snd (snd (tally_vulns vs ([], n, [])))) = card (VulnerabilityID ` set vs)"
proof -
  let ?ids = "snd (snd (tally_vulns vs ([], n, [])))"
  have "distinct ?ids"
    by (rule tally_distinct_ids) simp
  then have "length ?ids = card (set ?ids)"
    by (simp add: distinct_card)
  then show ?thesis
    by (simp add: tally_ids)
qed

subsection \<open>The variables after parsing\<close>

lemma scan_Parsed:
  "scan ok (Parsed j) =
     \<lparr>scanSuccess = ok,
      vulnCounts = fst (tally_vulns (records_of j) ([], 0, [])),
      totalVulns = length (records_of j),
      uniqueCves = card (VulnerabilityID ` set (records_of j))\<rparr>"
proof (cases "Results j")
  case None
  then show ?thesis
    by (simp add: scan_def parse_counts_def initial_state_def records_of_def)
next
  case (Some rs)
  obtain m n s where t: "tally_vulns (records_of j) ([], 0, []) = (m, n, s)"
    by (cases "tally_vulns (records_of j) ([], 0, [])") auto
  have n: "n = length (records_of j)"
    using tally_total [of "records_of j" "([], 0, [])"] t by simp
  have s: "length s = card (VulnerabilityID ` set (records_of j))"
    using tally_unique [of "records_of j" 0] t by simp
  show ?thesis
    using Some t n s
    by (simp add: scan_def parse_counts_def initial_state_def records_of_def
        tally_results_flat)
qed

lemma scan_no_report:
  "file = Absent \<or> file = Unreadable \<Longrightarrow>
   scan ok file = \<lparr>scanSuccess = ok, vulnCounts = [], totalVulns = 0, uniqueCves = 0\<rparr>"
  by (auto simp: scan_def parse_counts_def initial_state_def)

lemma vulnCounts_distinct:
  "distinct (map fst (vulnCounts (scan ok file)))"
proof (cases "file")
  case (Parsed j)
  then show ?thesis
    by (simp add: scan_Parsed tally_distinct_keys)
qed (simp_all add: scan_no_report)



lemma vulnCounts_get:
  assumes "\<not> inherited s"
  shows "get_prop (vulnCounts (scan ok (Parsed j))) s =
     (if s \<in> Severity ` set (records_of j)
      then Number (length (filter (\<lambda>v. Severity v = s) (records_of j)))
      else Undefined)"
proof -
  have "get_prop (fst ([], 0::nat, []::string list)) s = Undefined"
    using assms by (simp add: get_prop_own)
  with tally_lookup [OF assms, of "([], 0, [])" 0 "records_of j"] show ?thesis
    by (simp add: scan_Parsed)
qed

lemmas scan_eval =
  scan_def parse_counts_def initial_state_def get_prop_def set_prop_def set_add_def
  Object_prototype_def native_function_def

lemmas sample_defs =
  sample_report_def cve1_openssl_def cve1_libssl_def cve2_zlib_def cve3_negligible_def

lemmas sample_vulns =
  cve1_openssl_def cve1_libssl_def cve2_zlib_def cve3_negligible_def cve4_proto_def
  cve5_constructor_def

lemma sample_records:
  "records_of sample_report = [cve1_openssl, cve1_libssl, cve2_zlib]"
  by (simp add: records_of_def sample_report_def)

lemma sample_scan:
  "scan True (Parsed sample_report) =
     \<lparr>scanSuccess = True, vulnCounts = [(''HIGH'', Number 2), (''CRITICAL'', Number 1)],
      totalVulns = 3, uniqueCves = 2\<rparr>"
  by (simp add: scan_eval sample_defs)

lemma sample_ordinary:
  "\<forall>v\<in>set (records_of sample_report). \<not> inherited (Severity v)"
  by (simp add: sample_records sample_vulns inherited_def Object_prototype_def)



subsection \<open>Invariants of the counts\<close>




subsection \<open>Total count and unique identifiers\<close>




subsection \<open>Unrecognised severities\<close>

lemma parse_counts_quiet: "snd (parse_counts (Parsed j) st) = []"
  by (simp add: parse_counts_def split: option.splits prod.splits)

lemma breakdown_Nil: "breakdown [] = ''No vulnerabilities found''"
  by (simp add: breakdown_def Object_entries_def)

lemmas breakdown_eval =
  breakdown_def Object_entries_def is_array_index_def is_digit_def sort_entries_def order_def
  entry_line_def string_of_nat.simps digit_char_def

text \<open>
  Claim C2 as stated fails: a record whose severity is \<open>NEGLIGIBLE\<close> is not counted
  under \<open>UNKNOWN\<close>. The mapping gets a property \<open>NEGLIGIBLE\<close> with count 1 and no
  property \<open>UNKNOWN\<close>, and the summary prints the line \<open>NEGLIGIBLE: 1\<close>.
\<close>

theorem unknown_bucket_counterexample:
  "get_prop (vulnCounts (scan True (report_of [cve3_negligible]))) ''UNKNOWN'' = Undefined \<and>
   vulnCounts (scan True (report_of [cve3_negligible])) = [(''NEGLIGIBLE'', Number 1)] \<and>
   breakdown (vulnCounts (scan True (report_of [cve3_negligible]))) = ''NEGLIGIBLE: 1''"
  by (simp add: report_of_def scan_eval sample_vulns breakdown_eval)

text \<open>
  Claim C2 as amended. A record whose severity string is not one of the five, and does
  not name a property inherited from \<open>Object.prototype\<close>, is counted under a property
  named by its own severity string: for every such string \<open>s\<close> the mapping holds the
  number of records whose severity is exactly \<open>s\<close> (and no property when there is
  none). The same holds for the five names, so \<open>UNKNOWN\<close> counts only the records
  whose severity is literally \<open>UNKNOWN\<close>. The record is not dropped: it is in the
  count of its own name and in the total count, which is the number of all records.
  Counting prints no warning.
\<close>

theorem severity_counted_under_own_name:
  "(\<not> inherited s \<longrightarrow>
      get_prop (vulnCounts (scan ok (Parsed j))) s =
        (if s \<in> Severity ` set (records_of j)
         then Number (length (filter (\<lambda>v. Severity v = s) (records_of j)))
         else Undefined)) \<and>
   totalVulns (scan ok (Parsed j)) = length (records_of j) \<and>
   snd (parse_counts (Parsed j) st) = []"
proof -
  have "totalVulns (scan ok (Parsed j)) = length (records_of j)"
    by (simp add: scan_Parsed)
  then show ?thesis
    using vulnCounts_get [of s ok j] by (simp add: parse_counts_quiet)
qed

theorem severity_counted_under_own_name_witness:
  "get_prop (vulnCounts (scan True (Parsed \<lparr>Results = Some [\<lparr>Vulnerabilities = Some [cve3_negligible]\<rparr>]\<rparr>)))
     ''NEGLIGIBLE'' = Number 1 \<and>
   totalVulns (scan True (Parsed \<lparr>Results = Some [\<lparr>Vulnerabilities = Some [cve3_negligible]\<rparr>]\<rparr>)) = 1"
proof -
  have h: "\<not> inherited ''NEGLIGIBLE''"
    by (simp add: inherited_def Object_prototype_def)
  from severity_counted_under_own_name
    [of "''NEGLIGIBLE''" True "\<lparr>Results = Some [\<lparr>Vulnerabilities = Some [cve3_negligible]\<rparr>]\<rparr>"] h
  show ?thesis
    by (simp add: records_of_def sample_vulns)
qed

subsection \<open>The top findings\<close>

lemma collect_vulns_filter:
  "collect_vulns vs acc =
     acc @ map to_finding (filter (\<lambda>v. Severity v = ''CRITICAL'' \<or> Severity v = ''HIGH'') vs)"
  by (induction vs arbitrary: acc) auto

lemma collect_results_filter:
  "collect_results rs acc =
     acc @ map to_finding
       (filter (\<lambda>v. Severity v = ''CRITICAL'' \<or> Severity v = ''HIGH'')
          (concat (map (\<lambda>r. case Vulnerabilities r of None \<Rightarrow> [] | Some vs \<Rightarrow> vs) rs)))"
  by (induction rs arbitrary: acc) (auto simp: collect_vulns_filter split: option.splits)

lemma criticalHighVulns_Parsed:
  "criticalHighVulns (Parsed j) =
     map to_finding
       (filter (\<lambda>v. Severity v = ''CRITICAL'' \<or> Severity v = ''HIGH'') (records_of j))"
  by (simp add: criticalHighVulns_def records_of_def collect_results_filter split: option.splits)

lemma top_findings_Parsed:
  "top_findings (scan ok (Parsed j)) (Parsed j) =
     take 5 (map to_finding
       (filter (\<lambda>v. Severity v = ''CRITICAL'' \<or> Severity v = ''HIGH'') (records_of j)))"
  by (cases "records_of j = []")
     (simp_all add: top_findings_def scan_Parsed criticalHighVulns_Parsed)

lemma top_findings_spec_example:
  "map (\<lambda>f. (id' f, severity f))
     (top_findings (scan True (report_of spec_example)) (report_of spec_example)) =
   [(''CVE-1'', ''HIGH''), (''CVE-1'', ''HIGH''), (''CVE-2'', ''CRITICAL'')]"
  by (simp add: report_of_def top_findings_Parsed records_of_def spec_example_def sample_defs
      to_finding_def)

text \<open>
  Claim C1 as stated fails: the script does not sort the findings. On the
  specification's example (HIGH CVE-1 twice, then CRITICAL CVE-2) the printed list keeps
  the encounter order, with the two HIGH entries first; it differs from the list the
  claim gives, where the CRITICAL entry comes first, and from the stably sorted list.
\<close>

theorem top_findings_sorted_counterexample:
  "map (\<lambda>f. (id' f, severity f))
     (top_findings (scan True (report_of spec_example)) (report_of spec_example)) \<noteq>
   [(''CVE-2'', ''CRITICAL''), (''CVE-1'', ''HIGH''), (''CVE-1'', ''HIGH'')] \<and>
   map (\<lambda>f. (id' f, severity f)) (spec_topFindings spec_example) =
   [(''CVE-2'', ''CRITICAL''), (''CVE-1'', ''HIGH''), (''CVE-1'', ''HIGH'')] \<and>
   top_findings (scan True (report_of spec_example)) (report_of spec_example) \<noteq>
   spec_topFindings spec_example"
proof -
  have a: "map (\<lambda>f. (id' f, severity f)) (spec_topFindings spec_example) =
      [(''CVE-2'', ''CRITICAL''), (''CVE-1'', ''HIGH''), (''CVE-1'', ''HIGH'')]"
    by (simp add: spec_topFindings_def spec_rank_def spec_example_def sample_defs to_finding_def)
  have b: "map (\<lambda>f. (id' f, severity f))
      (top_findings (scan True (report_of spec_example)) (report_of spec_example)) \<noteq>
      [(''CVE-2'', ''CRITICAL''), (''CVE-1'', ''HIGH''), (''CVE-1'', ''HIGH'')]"
    by (simp add: top_findings_spec_example)
  from a b have "top_findings (scan True (report_of spec_example)) (report_of spec_example) \<noteq>
      spec_topFindings spec_example"
    by metis
  with a b show ?thesis
    by blast
qed

text \<open>
  Claim C1 as amended. For every report, the top-findings list is the CRITICAL and HIGH
  records in original encounter order (over all result groups), cut to at most 5
  entries; it is not sorted by severity. For the input HIGH CVE-1, HIGH CVE-1, CRITICAL
  CVE-2 the list is CVE-1 (HIGH), CVE-1 (HIGH), CVE-2 (CRITICAL).
\<close>

theorem top_findings_encounter_order:
  "top_findings (scan ok (Parsed j)) (Parsed j) =
     take 5 (map to_finding
       (filter (\<lambda>v. Severity v = ''CRITICAL'' \<or> Severity v = ''HIGH'') (records_of j))) \<and>
   length (top_findings (scan ok (Parsed j)) (Parsed j)) \<le> 5 \<and>
   map (\<lambda>f. (id' f, severity f))
     (top_findings (scan True (report_of spec_example)) (report_of spec_example)) =
   [(''CVE-1'', ''HIGH''), (''CVE-1'', ''HIGH''), (''CVE-2'', ''CRITICAL'')]"
  by (simp add: top_findings_Parsed top_findings_spec_example)

theorem top_findings_encounter_order_witness:
  "top_findings (scan True (Parsed sample_report)) (Parsed sample_report) =
     [to_finding cve1_openssl, to_finding cve1_libssl, to_finding cve2_zlib]"
  using top_findings_encounter_order [of True sample_report]
  by (simp add: sample_records) (simp add: sample_defs)

subsection \<open>The empty report\<close>

text \<open>
  Claim C8. A report without entries (no \<open>Results\<close>, no result groups, or groups
  without entries) gives total count 0, unique count 0, an empty severity mapping (no
  severity has a count: a name that is not inherited from \<open>Object.prototype\<close> reads
  as \<open>undefined\<close>) and no top findings, and the summary has the text
  \<open>No vulnerabilities found\<close> where the breakdown lines would be.
\<close>

theorem empty_report_summary:
  assumes "records_of j = []"
  shows "totalVulns (scan ok (Parsed j)) = 0 \<and>
    uniqueCves (scan ok (Parsed j)) = 0 \<and>
    vulnCounts (scan ok (Parsed j)) = [] \<and>
    (\<not> inherited s \<longrightarrow> get_prop (vulnCounts (scan ok (Parsed j))) s = Undefined) \<and>
    top_findings (scan ok (Parsed j)) (Parsed j) = [] \<and>
    breakdown (vulnCounts (scan ok (Parsed j))) = ''No vulnerabilities found'' \<and>
    summaryContent env (scan ok (Parsed j)) =
      concat (map (\<lambda>l. l @ newline)
        (summary_head env (scan ok (Parsed j)) @ [''No vulnerabilities found''] @
         summary_tail env))"
proof -
  have st: "scan ok (Parsed j) =
      \<lparr>scanSuccess = ok, vulnCounts = [], totalVulns = 0, uniqueCves = 0\<rparr>"
    using assms by (simp add: scan_Parsed)
  have "top_findings (scan ok (Parsed j)) (Parsed j) = []"
    using assms by (simp add: top_findings_Parsed)
  then show ?thesis
    by (simp add: st summaryContent_def breakdown_Nil get_prop_own)
qed

theorem empty_report_summary_witness:
  "records_of empty_report = [] \<and>
   totalVulns (scan True (Parsed empty_report)) = 0 \<and>
   uniqueCves (scan True (Parsed empty_report)) = 0 \<and>
   vulnCounts (scan True (Parsed empty_report)) = [] \<and>
   top_findings (scan True (Parsed empty_report)) (Parsed empty_report) = [] \<and>
   breakdown (vulnCounts (scan True (Parsed empty_report))) = ''No vulnerabilities found''"
proof -
  have h: "records_of empty_report = []"
    by (simp add: records_of_def empty_report_def)
  show ?thesis
    using h empty_report_summary [OF h, of True "''HIGH''" sample_env] by blast
qed

subsection \<open>The script as a whole\<close>

text \<open>
  The summary template does not read \<open>scanSuccess\<close>: whatever the flag holds, the text
  is the same.
\<close>

lemma summary_ignores_scanSuccess:
  "summaryContent env (st\<lparr>scanSuccess := b\<rparr>) = summaryContent env st"
  by (simp add: summaryContent_def summary_head_def)

text \<open>
  Claim C10 asks that, when the scan produces no parseable output, the script does not
  crash and writes a summary that shows \<open>no data available\<close>. The script ends with a
  \<open>TypeError\<close> before it invokes the scanner, on every run: \<open>spinner(...)\<close> returns a
  promise, which has no method \<open>start\<close>. No summary is written, whether the scan would
  have failed or not and whatever the report file holds.
\<close>

theorem scan_script_throws:
  "docker_scan ok file env = Inl (TypeError ''spinner(...).start is not a function'')"
  by (simp add: docker_scan_def call_on_promise_def promise_has_method_def inherited_def
      Object_prototype_def)

subsection \<open>The severity breakdown\<close>

lemma indexOf_absent: "x \<notin> set xs \<Longrightarrow> indexOf xs x = - 1"
  by (induction xs) auto

lemma indexOf_present:
  "x \<in> set xs \<Longrightarrow>
   0 \<le> indexOf xs x \<and> nat (indexOf xs x) < length xs \<and> xs ! nat (indexOf xs x) = x"
  by (induction xs) (auto simp: nat_add_distrib)

lemma indexOf_neg_iff: "indexOf xs x < 0 \<longleftrightarrow> x \<notin> set xs"
  using indexOf_absent [of x xs] indexOf_present [of x xs] by fastforce

lemma indexOf_inj: "inj_on (indexOf xs) (set xs)"
proof (rule inj_onI)
  fix x y assume "x \<in> set xs" "y \<in> set xs" "indexOf xs x = indexOf xs y"
  then show "x = y"
    using indexOf_present [of x xs] indexOf_present [of y xs] by metis
qed

lemma sorted_split:
  fixes f :: "'a \<Rightarrow> int"
  assumes "sorted (map f xs)"
    and "\<And>x y. x \<in> set xs \<Longrightarrow> y \<in> set xs \<Longrightarrow> P x \<Longrightarrow> \<not> P y \<Longrightarrow> f x < f y"
  shows "xs = filter P xs @ filter (\<lambda>x. \<not> P x) xs"
  using assms
proof (induction xs)
  case Nil
  then show ?case by simp
next
  case (Cons x xs)
  have IH: "xs = filter P xs @ filter (\<lambda>x. \<not> P x) xs"
    using Cons by simp
  show ?case
  proof (cases "P x")
    case True
    then show ?thesis using IH by simp
  next
    case False
    have "\<not> P y" if "y \<in> set xs" for y
    proof
      assume "P y"
      then have "f y < f x" using Cons.prems(2) [of y x] that False by simp
      moreover have "f x \<le> f y" using Cons.prems(1) that by simp
      ultimately show False by simp
    qed
    then have "filter P xs = []" and "filter (\<lambda>x. \<not> P x) xs = xs"
      by (simp_all add: filter_empty_conv filter_id_conv)
    then show ?thesis using False by simp
  qed
qed

lemma Object_entries_set: "set (Object_entries m) = set m"
  by (auto simp: Object_entries_def)

lemma Object_entries_distinct_keys:
  assumes "distinct (map fst m)"
  shows "distinct (map fst (Object_entries m))"
proof -
  have d: "distinct m" and i: "inj_on fst (set m)"
    using assms by (simp_all add: distinct_map)
  have "distinct (Object_entries m)"
    using d by (auto simp: Object_entries_def)
  then show ?thesis
    using i by (simp add: distinct_map Object_entries_set)
qed

lemma Object_entries_Nil_iff: "Object_entries m = [] \<longleftrightarrow> m = []"
  using Object_entries_set [of m] by (metis set_empty)


lemma order_ranks: "map (indexOf order) order = [0, 1, 2, 3, 4]"
  by (simp add: order_def)

lemma order_distinct: "distinct order"
  by (simp add: order_def)

lemma sort_entries_keys:
  assumes dk: "distinct (map fst m)"
  shows "\<exists>unrec. distinct unrec \<and> set unrec = fst ` set m - set order \<and>
           map fst (sort_entries (Object_entries m)) =
             unrec @ filter (\<lambda>s. s \<in> fst ` set m) order"
proof -
  let ?r = "\<lambda>e::string \<times> jsval. indexOf order (fst e)"
  let ?S = "sort_entries (Object_entries m)"
  let ?P = "\<lambda>e::string \<times> jsval. fst e \<notin> set order"
  let ?U = "filter ?P ?S"
  let ?R = "filter (\<lambda>e. \<not> ?P e) ?S"
  let ?T = "filter (\<lambda>s. s \<in> fst ` set m) order"
  have S_def: "?S = sort_key ?r (Object_entries m)"
    by (simp add: sort_entries_def case_prod_unfold)
  have setS: "set ?S = set m"
    by (simp add: S_def Object_entries_set)
  have dS: "distinct (map fst ?S)"
    using Object_entries_distinct_keys [OF dk]
    by (simp add: S_def distinct_map Object_entries_set)
  have sS: "sorted (map ?r ?S)"
    by (simp add: S_def)
  have split: "?S = ?U @ ?R"
  proof (rule sorted_split [OF sS])
    fix x y :: "string \<times> jsval"
    assume "?P x" "\<not> ?P y"
    then have "?r x = - 1" and "0 \<le> ?r y"
      using indexOf_absent [of "fst x" order] indexOf_present [of "fst y" order] by simp_all
    then show "?r x < ?r y" by simp
  qed
  have dU: "distinct (map fst ?U)" and dR: "distinct (map fst ?R)"
    using dS by (simp_all add: distinct_map_filter)
  have setU: "set (map fst ?U) = fst ` set m - set order"
    using setS by auto
  have setR: "set (map fst ?R) = fst ` set m \<inter> set order"
    using setS by auto
  have setT: "set ?T = fst ` set m \<inter> set order"
    by auto
  have inj: "inj_on (indexOf order) (set (map fst ?R) \<union> set ?T)"
    by (rule inj_on_subset [OF indexOf_inj]) (auto simp only: setR setT)
  have eq: "map (indexOf order) (map fst ?R) = map (indexOf order) ?T"
  proof (rule sorted_distinct_set_unique)
    have "sorted (map ?r ?R)"
      using sS by (rule sorted_filter)
    then show "sorted (map (indexOf order) (map fst ?R))"
      by (simp add: comp_def)
    show "distinct (map (indexOf order) (map fst ?R))"
      using dR inj by (subst distinct_map) (simp add: inj_on_Un)
    have "sorted (map (indexOf order) order)"
      by (simp add: order_ranks)
    then show "sorted (map (indexOf order) ?T)"
      by (rule sorted_filter)
    show "distinct (map (indexOf order) ?T)"
      using order_distinct inj by (subst distinct_map) (simp add: inj_on_Un)
    show "set (map (indexOf order) (map fst ?R)) = set (map (indexOf order) ?T)"
      using setR setT by (metis set_map)
  qed
  have RT: "map fst ?R = ?T"
    using inj_on_map_eq_map [OF inj] eq by blast
  have "map fst ?S = map fst ?U @ ?T"
    using split RT by (metis map_append)
  with dU setU show ?thesis
    by blast
qed

lemma order_ordinary: "s \<in> set order \<Longrightarrow> \<not> inherited s"
  by (auto simp: order_def inherited_def Object_prototype_def)

lemma vulnCounts_keys:
  assumes "\<forall>v\<in>set (records_of j). \<not> inherited (Severity v)"
  shows "fst ` set (vulnCounts (scan ok (Parsed j))) = Severity ` set (records_of j)"
proof -
  have "''__proto__'' \<notin> Severity ` set (records_of j)"
    using assms inherited_proto by auto
  then show ?thesis
    using tally_keys [of "records_of j" "([], 0, [])"] by (simp add: scan_Parsed)
qed

lemma vulnCounts_entry:
  assumes "\<forall>v\<in>set (records_of j). \<not> inherited (Severity v)"
    and "e \<in> set (vulnCounts (scan ok (Parsed j)))"
  shows "e = (fst e, Number (length (filter (\<lambda>v. Severity v = fst e) (records_of j))))"
proof -
  have k: "fst e \<in> Severity ` set (records_of j)"
    using assms(2) vulnCounts_keys [OF assms(1), of ok] by (metis imageI)
  then have o: "\<not> inherited (fst e)"
    using assms(1) by auto
  have "map_of (vulnCounts (scan ok (Parsed j))) (fst e) = Some (snd e)"
    using assms(2) vulnCounts_distinct [of ok "Parsed j"] by simp
  then have "get_prop (vulnCounts (scan ok (Parsed j))) (fst e) = snd e"
    by (simp add: get_prop_def)
  then have "snd e = Number (length (filter (\<lambda>v. Severity v = fst e) (records_of j)))"
    using vulnCounts_get [OF o, of ok j] k by simp
  then show ?thesis
    by (metis prod.collapse)
qed

lemma breakdown_keys:
  assumes "\<forall>v\<in>set (records_of j). \<not> inherited (Severity v)"
    and "records_of j \<noteq> []"
  shows "breakdown (vulnCounts (scan ok (Parsed j))) =
     join newline
       (map (\<lambda>s. entry_line (s, Number (length (filter (\<lambda>v. Severity v = s) (records_of j)))))
          (map fst (sort_entries (Object_entries (vulnCounts (scan ok (Parsed j)))))))"
proof -
  let ?vc = "vulnCounts (scan ok (Parsed j))"
  let ?S = "sort_entries (Object_entries ?vc)"
  have "fst ` set ?vc \<noteq> {}"
    using assms by (simp add: vulnCounts_keys)
  then have "Object_entries ?vc \<noteq> []"
    by (auto simp: Object_entries_Nil_iff)
  then have b: "breakdown ?vc = join newline (map entry_line ?S)"
    by (simp add: breakdown_def)
  have "set ?S = set ?vc"
    by (simp add: sort_entries_def Object_entries_set)
  then have "map entry_line ?S =
      map (\<lambda>e. entry_line
        (fst e, Number (length (filter (\<lambda>v. Severity v = fst e) (records_of j))))) ?S"
    using vulnCounts_entry [OF assms(1), of _ ok] by (intro map_cong refl) simp
  then have "map entry_line ?S =
      map (\<lambda>s. entry_line (s, Number (length (filter (\<lambda>v. Severity v = s) (records_of j)))))
        (map fst ?S)"
    by (simp only: map_map comp_def)
  then show ?thesis
    by (simp only: b)
qed

lemma breakdown_general:
  assumes "\<forall>v\<in>set (records_of j). \<not> inherited (Severity v)"
    and "records_of j \<noteq> []"
  shows "\<exists>unrec. distinct unrec \<and> set unrec = Severity ` set (records_of j) - set order \<and>
     breakdown (vulnCounts (scan ok (Parsed j))) =
       join newline
         (map (\<lambda>s. entry_line
                 (s, Number (length (filter (\<lambda>v. Severity v = s) (records_of j)))))
            (unrec @ filter (\<lambda>s. s \<in> Severity ` set (records_of j)) order))"
proof -
  from sort_entries_keys [OF vulnCounts_distinct [of ok "Parsed j"]]
  obtain unrec where
    "distinct unrec"
    "set unrec = fst ` set (vulnCounts (scan ok (Parsed j))) - set order"
    "map fst (sort_entries (Object_entries (vulnCounts (scan ok (Parsed j))))) =
       unrec @ filter (\<lambda>s. s \<in> fst ` set (vulnCounts (scan ok (Parsed j)))) order"
    by blast
  then have "distinct unrec \<and> set unrec = Severity ` set (records_of j) - set order \<and>
     breakdown (vulnCounts (scan ok (Parsed j))) =
       join newline
         (map (\<lambda>s. entry_line
                 (s, Number (length (filter (\<lambda>v. Severity v = s) (records_of j)))))
            (unrec @ filter (\<lambda>s. s \<in> Severity ` set (records_of j)) order))"
    by (simp only: breakdown_keys [OF assms] vulnCounts_keys [OF assms(1)] simp_thms)
  then show ?thesis
    by (rule exI)
qed

text \<open>
  Claim C5 as stated fails: severities that do not occur get no line. For the sample
  report (two HIGH entries, one CRITICAL) the total is 3 and the breakdown is the two
  lines \<open>CRITICAL: 1\<close> and \<open>HIGH: 2\<close>, not the five lines with \<open>MEDIUM: 0\<close>,
  \<open>LOW: 0\<close> and \<open>UNKNOWN: 0\<close>.
\<close>

theorem breakdown_all_five_counterexample:
  "totalVulns (scan True (Parsed sample_report)) = 3 \<and>
   breakdown (vulnCounts (scan True (Parsed sample_report))) =
     ''CRITICAL: 1'' @ newline @ ''HIGH: 2'' \<and>
   spec_breakdown (records_of sample_report) =
     ''CRITICAL: 1'' @ newline @ ''HIGH: 2'' @ newline @ ''MEDIUM: 0'' @ newline @
     ''LOW: 0'' @ newline @ ''UNKNOWN: 0'' \<and>
   breakdown (vulnCounts (scan True (Parsed sample_report))) \<noteq>
     spec_breakdown (records_of sample_report)"
  by (simp add: sample_scan breakdown_eval sample_records spec_breakdown_def sample_vulns
      newline_def)

text \<open>
  Claim C5 as amended. Take an aggregation result with nonzero total count. When no
  severity string of the input names a property inherited from \<open>Object.prototype\<close>,
  the breakdown has one line per severity that occurs in the input, with its count
  (which is then at least 1); severities with a zero count are always omitted. The
  severities among CRITICAL, HIGH, MEDIUM, LOW, UNKNOWN that occur are shown in that
  fixed order, after the lines of the severity strings outside this list, if any. When
  every severity is one of the five, the breakdown is exactly the lines of the occurring
  ones in the fixed order.
\<close>

theorem breakdown_shows_occurring_severities:
  assumes "0 < totalVulns (scan ok (Parsed j))"
  shows "((\<forall>v\<in>set (records_of j). \<not> inherited (Severity v)) \<longrightarrow>
     (\<exists>unrec. distinct unrec \<and> set unrec = Severity ` set (records_of j) - set order \<and>
       breakdown (vulnCounts (scan ok (Parsed j))) =
         join newline
           (map (\<lambda>s. entry_line
                   (s, Number (length (filter (\<lambda>v. Severity v = s) (records_of j)))))
              (unrec @ filter (\<lambda>s. s \<in> Severity ` set (records_of j)) order)))) \<and>
   (Severity ` set (records_of j) \<subseteq> set order \<longrightarrow>
     breakdown (vulnCounts (scan ok (Parsed j))) =
       join newline
         (map (\<lambda>s. entry_line
                 (s, Number (length (filter (\<lambda>v. Severity v = s) (records_of j)))))
            (filter (\<lambda>s. s \<in> Severity ` set (records_of j)) order)))"
proof -
  have ne: "records_of j \<noteq> []"
    using assms by (auto simp: scan_Parsed)
  have five: "breakdown (vulnCounts (scan ok (Parsed j))) =
       join newline
         (map (\<lambda>s. entry_line
                 (s, Number (length (filter (\<lambda>v. Severity v = s) (records_of j)))))
            (filter (\<lambda>s. s \<in> Severity ` set (records_of j)) order))"
    if sub: "Severity ` set (records_of j) \<subseteq> set order"
  proof -
    have ord: "\<forall>v\<in>set (records_of j). \<not> inherited (Severity v)"
      using sub order_ordinary by auto
    from breakdown_general [OF ord ne, of ok] obtain unrec where
      u: "set unrec = Severity ` set (records_of j) - set order" and
      b: "breakdown (vulnCounts (scan ok (Parsed j))) =
         join newline
           (map (\<lambda>s. entry_line
                   (s, Number (length (filter (\<lambda>v. Severity v = s) (records_of j)))))
              (unrec @ filter (\<lambda>s. s \<in> Severity ` set (records_of j)) order))"
      by blast
    have "unrec = []"
      using u sub by (metis Diff_eq_empty_iff set_empty)
    with b show ?thesis
      by simp
  qed
  show ?thesis
    using breakdown_general [OF _ ne, of ok] five by blast
qed

theorem breakdown_shows_occurring_severities_witness:
  "0 < totalVulns (scan True (Parsed sample_report)) \<and>
   Severity ` set (records_of sample_report) \<subseteq> set order \<and>
   breakdown (vulnCounts (scan True (Parsed sample_report))) =
     ''CRITICAL: 1'' @ newline @ ''HIGH: 2''"
proof -
  have h: "0 < totalVulns (scan True (Parsed sample_report))"
    by (simp add: sample_scan)
  have s: "Severity ` set (records_of sample_report) \<subseteq> set order"
    by (simp add: sample_records sample_vulns order_def)
  from breakdown_shows_occurring_severities [OF h] sample_ordinary
  obtain unrec where
    u: "set unrec = Severity ` set (records_of sample_report) - set order" and
    b: "breakdown (vulnCounts (scan True (Parsed sample_report))) =
       join newline
         (map (\<lambda>s. entry_line
                 (s, Number (length (filter (\<lambda>v. Severity v = s) (records_of sample_report)))))
            (unrec @ filter (\<lambda>s. s \<in> Severity ` set (records_of sample_report)) order))"
    by blast
  have "unrec = []"
    using u s by (metis Diff_eq_empty_iff set_empty)
  with b have "breakdown (vulnCounts (scan True (Parsed sample_report))) =
       join newline
         (map (\<lambda>s. entry_line
                 (s, Number (length (filter (\<lambda>v. Severity v = s) (records_of sample_report)))))
            (filter (\<lambda>s. s \<in> Severity ` set (records_of sample_report)) order))"
    by simp
  also have "\<dots> = ''CRITICAL: 1'' @ newline @ ''HIGH: 2''"
    by (simp add: sample_records sample_vulns order_def entry_line_def string_of_nat.simps
        digit_char_def)
  finally show ?thesis
    using h s by simp
qed

section \<open>Properties of the build script\<close>

subsection \<open>The size pattern\<close>

lemma upper_char_fixed: "c \<notin> set ''abcdefghijklmnopqrstuvwxyz'' \<Longrightarrow> upper_char c = c"
  by (simp add: upper_char_def)

lemma num_char_upper: "is_num_char c \<Longrightarrow> upper_char c = c"
  by (rule upper_char_fixed) (auto simp: is_num_char_def is_digit_def)

lemma space_upper: "is_space c \<Longrightarrow> upper_char c = c"
  by (rule upper_char_fixed) (auto simp: is_space_def)

lemma space_not_num: "is_space c \<Longrightarrow> \<not> is_num_char c"
  by (auto simp: is_space_def is_num_char_def is_digit_def)

lemma unit_head:
  assumes "toUpperCase u \<in> set units"
  shows "u \<noteq> [] \<and> \<not> is_num_char (hd u) \<and> \<not> is_space (hd u)"
proof (cases u)
  case Nil
  with assms show ?thesis
    by (simp add: toUpperCase_def units_def)
next
  case (Cons c cs)
  with assms have up: "upper_char c \<in> set ''GMKB''"
    by (auto simp: toUpperCase_def units_def)
  have "\<not> is_num_char c"
  proof
    assume "is_num_char c"
    then have "upper_char c = c" and "c \<notin> set ''GMKB''"
      by (auto simp: num_char_upper is_num_char_def is_digit_def)
    with up show False by simp
  qed
  moreover have "\<not> is_space c"
  proof
    assume "is_space c"
    then have "upper_char c = c" and "c \<notin> set ''GMKB''"
      by (auto simp: space_upper is_space_def)
    with up show False by simp
  qed
  ultimately show ?thesis
    using Cons by simp
qed

lemma takeWhile_prefix:
  assumes "list_all P xs" and "ys = [] \<or> \<not> P (hd ys)"
  shows "takeWhile P (xs @ ys) = xs \<and> dropWhile P (xs @ ys) = ys"
proof -
  have "takeWhile P ys = [] \<and> dropWhile P ys = ys"
    using assms(2) by (cases ys) auto
  then show ?thesis
    using assms(1) by (simp add: list_all_iff takeWhile_append2 dropWhile_append2)
qed

lemma size_match_parts:
  assumes "num \<noteq> []" "list_all is_num_char num" "list_all is_space ws"
    and "toUpperCase u \<in> set units"
  shows "size_match (num @ ws @ u) = Some (num, u)"
proof -
  have u: "u \<noteq> []" "\<not> is_num_char (hd u)" "\<not> is_space (hd u)"
    using unit_head [OF assms(4)] by simp_all
  have "ws @ u = [] \<or> \<not> is_num_char (hd (ws @ u))"
    using u assms(3) by (cases ws) (auto simp: space_not_num)
  then have a: "takeWhile is_num_char (num @ ws @ u) = num"
    and b: "dropWhile is_num_char (num @ ws @ u) = ws @ u"
    using takeWhile_prefix [OF assms(2), of "ws @ u"] by simp_all
  have c: "dropWhile is_space (ws @ u) = u"
    using takeWhile_prefix [OF assms(3), of u] u by simp
  show ?thesis
    using assms(1,4) by (simp add: size_match_def a b c)
qed

lemma size_match_Some:
  assumes "size_match s = Some (num, u)"
  shows "\<exists>ws. s = num @ ws @ u \<and> num \<noteq> [] \<and> list_all is_num_char num \<and>
           list_all is_space ws \<and> toUpperCase u \<in> set units"
proof -
  let ?rest = "dropWhile is_num_char s"
  have n: "num = takeWhile is_num_char s" and u: "u = dropWhile is_space ?rest"
    and ne: "num \<noteq> []" and un: "toUpperCase u \<in> set units"
    using assms by (auto simp: size_match_def Let_def split: if_splits)
  have "s = num @ takeWhile is_space ?rest @ u"
    by (simp add: n u)
  moreover have "list_all is_num_char num"
    by (auto simp: n list_all_iff dest: set_takeWhileD)
  moreover have "list_all is_space (takeWhile is_space ?rest)"
    by (auto simp: list_all_iff dest: set_takeWhileD)
  ultimately show ?thesis
    using ne un by blast
qed

lemma size_match_iff: "matches_size_pattern s \<longleftrightarrow> size_match s \<noteq> None"
proof
  assume "matches_size_pattern s"
  then show "size_match s \<noteq> None"
    by (auto simp: matches_size_pattern_def size_match_parts)
next
  assume "size_match s \<noteq> None"
  then obtain num u where "size_match s = Some (num, u)"
    by auto
  from size_match_Some [OF this] show "matches_size_pattern s"
    by (auto simp: matches_size_pattern_def)
qed

lemma num_times_times: "num_times (num_times x a) b = num_times x (a * b)"
  by (cases x) simp_all

lemma num_times_one: "num_times x 1 = x"
  by (cases x) simp_all

lemma parseSizeToBytes_no_match:
  "\<not> matches_size_pattern s \<Longrightarrow> parseSizeToBytes s = (Num 0, [parse_warning s])"
  by (cases "size_match s") (simp_all add: size_match_iff parseSizeToBytes_def)

lemma parseSizeToBytes_match:
  assumes "num \<noteq> []" "list_all is_num_char num" "list_all is_space ws"
    and "toUpperCase u \<in> set units"
  shows "parseSizeToBytes (num @ ws @ u) =
    (num_times (parseFloat num) (spec_multiplier (toUpperCase u)), [])"
proof -
  have m: "size_match (num @ ws @ u) = Some (num, u)"
    using assms by (rule size_match_parts)
  from assms(4) consider "toUpperCase u = ''GB''" | "toUpperCase u = ''MB''"
    | "toUpperCase u = ''M''" | "toUpperCase u = ''KB''" | "toUpperCase u = ''K''"
    | "toUpperCase u = ''B''"
    by (auto simp: units_def)
  then show ?thesis
    by cases
      (simp_all add: parseSizeToBytes_def m spec_multiplier_def num_times_times num_times_one
        power2_eq_square power3_eq_cube)
qed

lemmas parse_eval =
  parseSizeToBytes_def size_match_def is_num_char_def is_digit_def is_space_def
  toUpperCase_def upper_char_def units_def parseFloat_def decimal_value_def digit_value_def

lemma garbage_no_match: "\<not> matches_size_pattern ''garbage''"
  by (simp add: size_match_iff size_match_def is_num_char_def is_digit_def)

subsection \<open>Parsing sizes\<close>

text \<open>
  Claim C3. \<open>512MB\<close> parses to \<open>512 * 1024 * 1024\<close> bytes and \<open>1.5GB\<close> to
  \<open>1.5 * 1024\<^sup>3\<close>. Every string that the pattern does not match, such as
  \<open>garbage\<close>, gives 0 and one warning line. A string that matches, made of a numeric
  part, white space and a unit in either case, gives the value of the numeric part times
  the unit's multiplier and no warning: 1 for B, 1024 for K and KB, \<open>1024\<^sup>2\<close> for M
  and MB, \<open>1024\<^sup>3\<close> for GB.
\<close>

theorem parseSize_contract:
  "parseSizeToBytes ''512MB'' = (Num (512 * 1024 * 1024), []) \<and>
   parseSizeToBytes ''1.5GB'' = (Num (3 / 2 * 1024 ^ 3), []) \<and>
   parseSizeToBytes ''garbage'' = (Num 0, [parse_warning ''garbage'']) \<and>
   (\<not> matches_size_pattern s \<longrightarrow> parseSizeToBytes s = (Num 0, [parse_warning s])) \<and>
   (num \<noteq> [] \<and> list_all is_num_char num \<and> list_all is_space ws \<and>
    toUpperCase u \<in> set units \<longrightarrow>
      parseSizeToBytes (num @ ws @ u) =
        (num_times (parseFloat num) (spec_multiplier (toUpperCase u)), []))"
proof -
  have "parseSizeToBytes ''512MB'' = (Num (512 * 1024 * 1024), [])"
    by (simp add: parse_eval)
  moreover have "parseSizeToBytes ''1.5GB'' = (Num (3 / 2 * 1024 ^ 3), [])"
    by (simp add: parse_eval)
  moreover have "parseSizeToBytes ''garbage'' = (Num 0, [parse_warning ''garbage''])"
    by (rule parseSizeToBytes_no_match [OF garbage_no_match])
  ultimately show ?thesis
    using parseSizeToBytes_no_match [of s] parseSizeToBytes_match [of num ws u] by blast
qed

theorem parseSize_contract_witness:
  "\<not> matches_size_pattern ''1.2G'' \<and>
   parseSizeToBytes ''1.2G'' = (Num 0, [parse_warning ''1.2G'']) \<and>
   matches_size_pattern ''2 kb'' \<and>
   parseSizeToBytes ''2 kb'' = (Num 2048, [])"
proof -
  have a: "\<not> matches_size_pattern ''1.2G''"
    by (simp add: size_match_iff size_match_def is_num_char_def is_digit_def
        is_space_def toUpperCase_def upper_char_def units_def)
  have b: "matches_size_pattern ''2 kb''"
    by (simp add: size_match_iff size_match_def is_num_char_def is_digit_def
        is_space_def toUpperCase_def upper_char_def units_def)
  have c: "''2'' \<noteq> [] \<and> list_all is_num_char ''2'' \<and> list_all is_space '' '' \<and>
      toUpperCase ''kb'' \<in> set units"
    by (simp add: is_num_char_def is_digit_def is_space_def toUpperCase_def upper_char_def
        units_def)
  have d: "num_times (parseFloat ''2'') (spec_multiplier (toUpperCase ''kb'')) = Num 2048"
    by (simp add: parseFloat_def is_digit_def decimal_value_def digit_value_def
        spec_multiplier_def toUpperCase_def upper_char_def)
  from parseSize_contract [of "''1.2G''" "''2''" "'' ''" "''kb''"] a c
  have "parseSizeToBytes ''1.2G'' = (Num 0, [parse_warning ''1.2G''])"
    and "parseSizeToBytes (''2'' @ '' '' @ ''kb'') =
      (num_times (parseFloat ''2'') (spec_multiplier (toUpperCase ''kb'')), [])"
    by blast+
  with a b d show ?thesis
    by simp
qed

text \<open>
  Claim C9 asks that every unparseable or numerically ill-formed input gives 0 with a
  warning, never \<open>NaN\<close>. The pattern's numeric part \<^verbatim>\<open>[\d.]+\<close> accepts strings
  without a digit, on which \<open>parseFloat\<close> gives \<open>NaN\<close>: the string \<open>.B\<close> matches,
  no warning is printed, and the result is \<open>NaN\<close>; with a larger unit the product is
  \<open>NaN\<close> as well.
\<close>

theorem parseSize_dots_give_NaN:
  "matches_size_pattern ''.B'' \<and>
   parseSizeToBytes ''.B'' = (NaN, []) \<and>
   parseSizeToBytes ''..5k'' = (NaN, []) \<and>
   parseSizeToBytes ''...MB'' = (NaN, [])"
  by (simp add: size_match_iff) (simp add: parse_eval)

subsection \<open>The estimate\<close>

text \<open>
  Claim C4. For non-negative byte counts \<open>a\<close> and \<open>b\<close>, not both zero, the estimated
  total is \<open>a + b + 300 * 1024 * 1024\<close> bytes, which the script keeps as a number of MiB
  formatted with two decimals; when both are 0 the estimate is the text \<open>N/A\<close> and not
  the 300 MiB of the buffer alone.
\<close>

theorem estimate_total:
  assumes "0 \<le> a" and "0 \<le> b" and "a \<noteq> 0 \<or> b \<noteq> 0"
  shows "estimatedTotalBytes (Num a) (Num b) = Num (a + b + 300 * 1024 * 1024) \<and>
    estimatedTotalImageSizeMB (Num a) (Num b) =
      Fixed2 (Num ((a + b + 300 * 1024 * 1024) / (1024 * 1024))) \<and>
    estimatedTotalImageSizeMB (Num 0) (Num 0) = NA"
proof -
  have "0 < a \<or> 0 < b"
    using assms by linarith
  then show ?thesis
    by (auto simp: estimatedTotalImageSizeMB_def estimatedTotalBytes_def bufferBytes_def)
qed

theorem estimate_total_witness:
  "(0::rat) \<le> 512 * 1024 * 1024 \<and> (0::rat) \<le> 0 \<and>
   estimatedTotalBytes (Num (512 * 1024 * 1024)) (Num 0) = Num (812 * 1024 * 1024) \<and>
   estimatedTotalImageSizeMB (Num (512 * 1024 * 1024)) (Num 0) = Fixed2 (Num 812) \<and>
   estimatedTotalImageSizeMB (Num 0) (Num 0) = NA"
  using estimate_total [of "512 * 1024 * 1024" 0]
  by simp

end
